theory Spec2Isabelle
  imports Main "HOL-Library.AList"
begin

text \<open>
  A shallow embedding of \<^verbatim>\<open>chemprot_to_standoff.py\<close>, which converts the ChemProt corpus
  (tab-separated abstracts, entities and relations) to the standoff format, and the
  properties of its three parsers, of the merge and write step of \<^verbatim>\<open>main\<close> and of
  \<^verbatim>\<open>make_dir\<close>.
\<close>

section \<open>Strings as Python sees them\<close>

text \<open>
  A Python \<^verbatim>\<open>str\<close> is a \<^typ>\<open>string\<close>, each \<^typ>\<open>char\<close> standing for a code point below 256.
  The content of a file is the text that Python's text layer delivers, newlines already
  translated to \<^verbatim>\<open>\n\<close>.

  \<^verbatim>\<open>str.strip()\<close> removes the leading and trailing characters for which
  \<^verbatim>\<open>str.isspace()\<close> holds; below 256 these are the code points 9 to 13, 28 to 32, 133
  and 160.
\<close>

abbreviation TAB :: char where "TAB \<equiv> CHR 0x09"
abbreviation NL :: char where "NL \<equiv> CHR 0x0A"

definition is_space :: "char \<Rightarrow> bool" where
  "is_space c = (c \<in> set [CHR 0x09, CHR 0x0A, CHR 0x0B, CHR 0x0C, CHR 0x0D,
     CHR 0x1C, CHR 0x1D, CHR 0x1E, CHR 0x1F, CHR 0x20, CHR 0x85, CHR 0xA0])"

definition lstrip :: "string \<Rightarrow> string" where
  "lstrip s = dropWhile is_space s"

definition rstrip :: "string \<Rightarrow> string" where
  "rstrip s = rev (dropWhile is_space (rev s))"

definition strip :: "string \<Rightarrow> string" where
  "strip s = lstrip (rstrip s)"

text \<open>
  \<^verbatim>\<open>s.split(sep)\<close> for a separator of one character: the pieces between the separators,
  at least one piece, the empty string giving one empty piece.
  The recursive call never returns the empty list (\<open>split_on_not_Nil\<close> below), so the
  first branch of the \<^theory_text>\<open>case\<close> is there for totality only.
\<close>

fun split_on :: "char \<Rightarrow> string \<Rightarrow> string list" where
  "split_on sep [] = [[]]"
| "split_on sep (c # cs) =
     (if c = sep then [] # split_on sep cs
      else (case split_on sep cs of
              [] \<Rightarrow> [[c]]
            | w # ws \<Rightarrow> (c # w) # ws))"

text \<open>\<^verbatim>\<open>sep.join(xs)\<close>.\<close>

fun join :: "string \<Rightarrow> string list \<Rightarrow> string" where
  "join sep [] = []"
| "join sep [x] = x"
| "join sep (x # y # ys) = x @ sep @ join sep (y # ys)"

text \<open>
  \<^verbatim>\<open>for line in f\<close>: the lines of the content, each with its terminating newline; only
  the last line may lack one. No line is empty.
\<close>

fun file_lines :: "string \<Rightarrow> string list" where
  "file_lines [] = []"
| "file_lines (c # cs) =
     (if c = NL then [c] # file_lines cs
      else (case file_lines cs of
              [] \<Rightarrow> [[c]]
            | l # ls \<Rightarrow> (c # l) # ls))"

text \<open>\<^verbatim>\<open>str(n)\<close> in an f-string, for the counter \<^verbatim>\<open>R\<close>, which is never negative.\<close>

definition digit_char :: "nat \<Rightarrow> char" where
  "digit_char d = ''0123456789'' ! d"

fun str :: "nat \<Rightarrow> string" where
  "str n = (if n < 10 then [digit_char n] else str (n div 10) @ [digit_char (n mod 10)])"

declare str.simps [simp del]

section \<open>Dictionaries and errors\<close>

text \<open>
  A \<^verbatim>\<open>dict\<close> keyed by strings is an association list in insertion order with distinct
  keys: \<^const>\<open>map_of\<close> looks a key up, and \<^const>\<open>AList.update\<close> overwrites the value of a
  key in place or appends a new key, as an assignment \<^verbatim>\<open>d[k] = v\<close> does. Every exception
  that the source can raise is a value on the left of a sum.
\<close>

type_synonym 'v dict = "(string \<times> 'v) list"

datatype error = ValueError | KeyError | IndexError

section \<open>Abstract parser\<close>

text \<open>
  \<^verbatim>\<open>convert_abstracts_to_standoff\<close>: the content is stripped as a whole and split at the
  newlines; the dictionary comprehension assigns, row after row, the fields after the
  first, joined by newlines, to the first field. Indexing the split at 0 is the
  \<^verbatim>\<open>IndexError\<close> branch.
\<close>

fun abstracts_loop :: "string dict \<Rightarrow> string list \<Rightarrow> error + string dict" where
  "abstracts_loop d [] = Inr d"
| "abstracts_loop d (abst # rest) =
     (case split_on TAB abst of
        [] \<Rightarrow> Inl IndexError
      | pmid # body \<Rightarrow> abstracts_loop (AList.update pmid (join [NL] body) d) rest)"

definition convert_abstracts_to_standoff :: "string \<Rightarrow> error + string dict" where
  "convert_abstracts_to_standoff f =
     (let file_contents = split_on NL (strip f)
      in abstracts_loop [] file_contents)"

section \<open>Entity parser\<close>

text \<open>
  \<^verbatim>\<open>convert_entities_to_standoff\<close>: the body of the loop is \<^verbatim>\<open>entities_step\<close>. Unpacking
  the split into six names raises \<^verbatim>\<open>ValueError\<close> unless there are exactly six fields.
\<close>

definition entity_ann :: "string \<Rightarrow> string \<Rightarrow> string \<Rightarrow> string \<Rightarrow> string \<Rightarrow> string" where
  "entity_ann T label start_offset end_offset text =
     T @ [TAB] @ label @ '' '' @ start_offset @ '' '' @ end_offset @ [TAB] @ text"

definition entities_step :: "string list dict \<Rightarrow> string \<Rightarrow> error + string list dict" where
  "entities_step converted_entities line =
     (if line \<noteq> [] then
        (let fields = split_on TAB (strip line) in
         if length fields \<noteq> 6 then Inl ValueError
         else
           (let pmid = fields ! 0; T = fields ! 1; label = fields ! 2;
                start_offset = fields ! 3; end_offset = fields ! 4; text = fields ! 5;
                d = (if map_of converted_entities pmid = None
                     then AList.update pmid [] converted_entities
                     else converted_entities)
            in case map_of d pmid of
                 None \<Rightarrow> Inl KeyError
               | Some anns \<Rightarrow>
                   Inr (AList.update pmid
                          (anns @ [entity_ann T label start_offset end_offset text]) d)))
      else Inr converted_entities)"

fun entities_loop :: "string list dict \<Rightarrow> string list \<Rightarrow> error + string list dict" where
  "entities_loop d [] = Inr d"
| "entities_loop d (line # rest) =
     (case entities_step d line of
        Inl e \<Rightarrow> Inl e
      | Inr d' \<Rightarrow> entities_loop d' rest)"

definition join_values :: "string list dict \<Rightarrow> string dict" where
  "join_values d = map (\<lambda>(pmid, anns). (pmid, join [NL] anns)) d"

definition convert_entities_to_standoff :: "string \<Rightarrow> error + string dict" where
  "convert_entities_to_standoff f =
     (case entities_loop [] (file_lines f) of
        Inl e \<Rightarrow> Inl e
      | Inr d \<Rightarrow> Inr (join_values d))"

section \<open>Relation parser\<close>

text \<open>
  \<^verbatim>\<open>convert_relations_to_standoff\<close>: the state of the loop is the counter \<^verbatim>\<open>R\<close> and the
  dictionary; the counter is set to 1 when a document identifier is met for the first
  time, and incremented after every row.
\<close>

definition relation_ann :: "nat \<Rightarrow> string \<Rightarrow> string \<Rightarrow> string \<Rightarrow> string" where
  "relation_ann R label arg_1 arg_2 =
     ''R'' @ str R @ [TAB] @ label @ '' '' @ arg_1 @ '' '' @ arg_2"

definition relations_step ::
  "nat \<times> string list dict \<Rightarrow> string \<Rightarrow> error + nat \<times> string list dict" where
  "relations_step st line =
     (case st of (R, converted_relations) \<Rightarrow>
        if line \<noteq> [] then
          (let fields = split_on TAB (strip line) in
           if length fields \<noteq> 4 then Inl ValueError
           else
             (let pmid = fields ! 0; label = fields ! 1;
                  arg_1 = fields ! 2; arg_2 = fields ! 3;
                  (d, R1) = (if map_of converted_relations pmid = None
                             then (AList.update pmid [] converted_relations, 1)
                             else (converted_relations, R))
              in case map_of d pmid of
                   None \<Rightarrow> Inl KeyError
                 | Some anns \<Rightarrow>
                     Inr (R1 + 1,
                          AList.update pmid (anns @ [relation_ann R1 label arg_1 arg_2]) d)))
        else Inr (R, converted_relations))"

fun relations_loop ::
  "nat \<times> string list dict \<Rightarrow> string list \<Rightarrow> error + nat \<times> string list dict" where
  "relations_loop st [] = Inr st"
| "relations_loop st (line # rest) =
     (case relations_step st line of
        Inl e \<Rightarrow> Inl e
      | Inr st' \<Rightarrow> relations_loop st' rest)"

definition convert_relations_to_standoff :: "string \<Rightarrow> error + string dict" where
  "convert_relations_to_standoff f =
     (case relations_loop (1, []) (file_lines f) of
        Inl e \<Rightarrow> Inl e
      | Inr (R, d) \<Rightarrow> Inr (join_values d))"

section \<open>Merging and writing\<close>

text \<open>
  The end of \<^verbatim>\<open>main\<close>: for every key of \<^verbatim>\<open>converted_entities\<close> that is also a key of
  \<^verbatim>\<open>converted_relations\<close>, the entity block is replaced by the entity block, a newline
  and the relation block; then \<^verbatim>\<open>converted_entities\<close> is written with the extension
  \<^verbatim>\<open>ann\<close>.
\<close>

fun merge_loop :: "string list \<Rightarrow> string dict \<Rightarrow> string dict \<Rightarrow> error + string dict" where
  "merge_loop [] converted_entities converted_relations = Inr converted_entities"
| "merge_loop (pmid # pmids) converted_entities converted_relations =
     (case map_of converted_relations pmid of
        None \<Rightarrow> merge_loop pmids converted_entities converted_relations
      | Some r \<Rightarrow>
          (case map_of converted_entities pmid of
             None \<Rightarrow> Inl KeyError
           | Some e \<Rightarrow>
               merge_loop pmids (AList.update pmid (e @ [NL] @ r) converted_entities)
                 converted_relations))"

definition merge_annotations :: "string dict \<Rightarrow> string dict \<Rightarrow> error + string dict" where
  "merge_annotations converted_entities converted_relations =
     merge_loop (map fst converted_entities) converted_entities converted_relations"

text \<open>
  \<^verbatim>\<open>os.path.join\<close> of two components on POSIX, and the file system as a map from paths to
  contents: \<^verbatim>\<open>write_to_disk\<close> opens each file for writing and writes the item, in the
  order of the dictionary. Failures of the operating system are outside the model.
\<close>

definition path_join :: "string \<Rightarrow> string \<Rightarrow> string" where
  "path_join a b =
     (if b \<noteq> [] \<and> hd b = CHR ''/'' then b
      else if a = [] \<or> last a = CHR ''/'' then a @ b
      else a @ ''/'' @ b)"

type_synonym filesystem = "string \<rightharpoonup> string"

definition file_path :: "string \<Rightarrow> string \<Rightarrow> string \<Rightarrow> string" where
  "file_path output pmid ext = path_join output (pmid @ ''.'' @ ext)"

fun write_to_disk :: "string \<Rightarrow> string dict \<Rightarrow> string \<Rightarrow> filesystem \<Rightarrow> filesystem" where
  "write_to_disk output [] ext fs = fs"
| "write_to_disk output ((pmid, item) # rest) ext fs =
     write_to_disk output rest ext (fs(file_path output pmid ext \<mapsto> item))"

definition merge_and_write ::
  "string \<Rightarrow> string dict \<Rightarrow> string dict \<Rightarrow> filesystem \<Rightarrow> error + filesystem" where
  "merge_and_write output converted_entities converted_relations fs =
     (case merge_annotations converted_entities converted_relations of
        Inl e \<Rightarrow> Inl e
      | Inr merged \<Rightarrow> Inr (write_to_disk output merged ''ann'' fs))"

section \<open>Directory initializer\<close>

text \<open>
  \<^verbatim>\<open>make_dir\<close> calls \<^verbatim>\<open>os.makedirs\<close>, here a parameter that takes the path and the
  world to an \<^verbatim>\<open>OSError\<close>, given by its \<^verbatim>\<open>errno\<close>, or to the new world. An error other
  than \<^verbatim>\<open>EEXIST\<close> is raised again.
\<close>

type_synonym errno = nat

definition EEXIST :: errno where "EEXIST = 17"

definition make_dir ::
  "(string \<Rightarrow> 'w \<Rightarrow> errno + 'w) \<Rightarrow> string \<Rightarrow> 'w \<Rightarrow> errno + 'w" where
  "make_dir os_makedirs directory w =
     (case os_makedirs directory w of
        Inr w' \<Rightarrow> Inr w'
      | Inl err \<Rightarrow> if err \<noteq> EEXIST then Inl err else Inr w)"

section \<open>Notions used to state the properties\<close>

text \<open>A row of a tab-separated file, given by its fields, as one newline-terminated line.\<close>

definition row_line :: "string list \<Rightarrow> string" where
  "row_line fields = join [TAB] fields @ [NL]"

text \<open>
  A row is well formed when no field holds a tab or a newline and the row neither begins
  nor ends with whitespace: its first field starts, and its last field ends, with a
  character that is not whitespace.
\<close>

definition wf_row :: "string list \<Rightarrow> bool" where
  "wf_row fields =
     (fields \<noteq> [] \<and>
      (\<forall>f\<in>set fields. TAB \<notin> set f \<and> NL \<notin> set f) \<and>
      hd fields \<noteq> [] \<and> \<not> is_space (hd (hd fields)) \<and>
      last fields \<noteq> [] \<and> \<not> is_space (last (last fields)))"

text \<open>
  An abstract row in the specification's words: its document identifier is what precedes
  the first tab, its remainder is what follows that tab, and the body is the remainder
  with every tab replaced by a newline.
\<close>

definition document_id :: "string \<Rightarrow> string" where
  "document_id row = takeWhile (\<lambda>c. c \<noteq> TAB) row"

definition remainder :: "string \<Rightarrow> string" where
  "remainder row = tl (dropWhile (\<lambda>c. c \<noteq> TAB) row)"

definition tabs_to_newlines :: "string \<Rightarrow> string" where
  "tabs_to_newlines s = map (\<lambda>c. if c = TAB then NL else c) s"

text \<open>The body of a row: empty when the row has no tab.\<close>

definition abstract_body :: "string \<Rightarrow> string" where
  "abstract_body row = (if TAB \<in> set row then tabs_to_newlines (remainder row) else [])"

text \<open>The fields both line parsers unpack: the line stripped, then split at the tabs.\<close>

definition line_fields :: "string \<Rightarrow> string list" where
  "line_fields line = split_on TAB (strip line)"

text \<open>The annotations collected so far for a document, none when it has no entry.\<close>

definition lookup_list :: "string list dict \<Rightarrow> string \<Rightarrow> string list" where
  "lookup_list d pmid = (case map_of d pmid of None \<Rightarrow> [] | Some anns \<Rightarrow> anns)"

text \<open>
  The standoff lines as the specification writes them, for a row given by its fields:
  \<^verbatim>\<open>{local_entity_id}\t{type_label} {start_offset} {end_offset}\t{surface_text}\<close> for an
  entity row, and \<^verbatim>\<open>R{counter}\t{relation_label} {argument_1_ref} {argument_2_ref}\<close> for a
  relation row.
\<close>

definition standoff_entity_line :: "string list \<Rightarrow> string" where
  "standoff_entity_line r =
     r ! 1 @ [TAB] @ r ! 2 @ '' '' @ r ! 3 @ '' '' @ r ! 4 @ [TAB] @ r ! 5"



text \<open>The rows of one document, in input order.\<close>

definition rows_of :: "string \<Rightarrow> string list list \<Rightarrow> string list list" where
  "rows_of pmid rows = filter (\<lambda>r. r ! 0 = pmid) rows"


text \<open>
  A minimal model of \<^verbatim>\<open>os.makedirs\<close> on a world that is the list of existing directories:
  the empty path is refused with \<^verbatim>\<open>ENOENT\<close>, an existing path with \<^verbatim>\<open>EEXIST\<close>, and every
  other path is created.
\<close>

definition ENOENT :: errno where "ENOENT = 2"

definition os_makedirs_model :: "string \<Rightarrow> string list \<Rightarrow> errno + string list" where
  "os_makedirs_model directory dirs =
     (if directory = [] then Inl ENOENT
      else if directory \<in> set dirs then Inl EEXIST
      else Inr (directory # dirs))"

section \<open>Merging and writing: properties\<close>

lemma merge_loop_spec:
  "distinct ks \<Longrightarrow> set ks \<subseteq> fst ` set ents \<Longrightarrow>
   \<exists>m. merge_loop ks ents rels = Inr m \<and> map fst m = map fst ents \<and>
     (\<forall>p. map_of m p =
        (if p \<in> set ks
         then (case map_of rels p of
                 None \<Rightarrow> map_of ents p
               | Some r \<Rightarrow> map_option (\<lambda>e. e @ [NL] @ r) (map_of ents p))
         else map_of ents p))"
proof (induction ks arbitrary: ents)
  case Nil
  then show ?case by simp
next
  case (Cons k ks)
  show ?case
  proof (cases "map_of rels k")
    case None
    from Cons.prems have "distinct ks" "set ks \<subseteq> fst ` set ents" by auto
    from Cons.IH[OF this] obtain m where
      m: "merge_loop ks ents rels = Inr m" "map fst m = map fst ents"
         "\<forall>p. map_of m p = (if p \<in> set ks
            then (case map_of rels p of None \<Rightarrow> map_of ents p
                  | Some r \<Rightarrow> map_option (\<lambda>e. e @ [NL] @ r) (map_of ents p))
            else map_of ents p)"
      by blast
    show ?thesis using None m by auto
  next
    case (Some r)
    from Cons.prems have kin: "k \<in> fst ` set ents" by simp
    then obtain e where e: "map_of ents k = Some e"
      by (metis map_of_eq_None_iff not_Some_eq)
    let ?ents = "AList.update k (e @ [NL] @ r) ents"
    have keys: "map fst ?ents = map fst ents"
      using kin by (simp add: update_keys)
    from Cons.prems have "distinct ks" "set ks \<subseteq> fst ` set ?ents"
      using keys by (auto simp flip: set_map)
    from Cons.IH[OF this] obtain m where
      m: "merge_loop ks ?ents rels = Inr m" "map fst m = map fst ?ents"
         "\<forall>p. map_of m p = (if p \<in> set ks
            then (case map_of rels p of None \<Rightarrow> map_of ?ents p
                  | Some r \<Rightarrow> map_option (\<lambda>e. e @ [NL] @ r) (map_of ?ents p))
            else map_of ?ents p)"
      by blast
    have knot: "k \<notin> set ks" using Cons.prems by simp
    have "merge_loop (k # ks) ents rels = Inr m" using Some e m(1) by simp
    moreover have "map fst m = map fst ents" using m(2) keys by simp
    moreover have "\<forall>p. map_of m p = (if p \<in> set (k # ks)
            then (case map_of rels p of None \<Rightarrow> map_of ents p
                  | Some r \<Rightarrow> map_option (\<lambda>e. e @ [NL] @ r) (map_of ents p))
            else map_of ents p)"
      using m(3) knot Some e by (auto simp: update_conv' split: option.splits)
    ultimately show ?thesis by blast
  qed
qed

lemma merge_annotations_spec:
  assumes "distinct (map fst ents)"
  shows "\<exists>m. merge_annotations ents rels = Inr m \<and> map fst m = map fst ents \<and>
     (\<forall>p. map_of m p =
        (case map_of rels p of
           None \<Rightarrow> map_of ents p
         | Some r \<Rightarrow> map_option (\<lambda>e. e @ [NL] @ r) (map_of ents p)))"
proof -
  from merge_loop_spec[of "map fst ents" ents rels] assms obtain m where
    m: "merge_loop (map fst ents) ents rels = Inr m" "map fst m = map fst ents"
       "\<forall>p. map_of m p = (if p \<in> set (map fst ents)
            then (case map_of rels p of None \<Rightarrow> map_of ents p
                  | Some r \<Rightarrow> map_option (\<lambda>e. e @ [NL] @ r) (map_of ents p))
            else map_of ents p)"
    by auto
  have "map_of m p = (case map_of rels p of
           None \<Rightarrow> map_of ents p
         | Some r \<Rightarrow> map_option (\<lambda>e. e @ [NL] @ r) (map_of ents p))" for p
  proof (cases "p \<in> set (map fst ents)")
    case True then show ?thesis using m(3) by simp
  next
    case False
    then have "map_of ents p = None" by (simp add: map_of_eq_None_iff)
    then show ?thesis using m(3) False by (simp split: option.splits)
  qed
  then show ?thesis using m(1,2) by (simp add: merge_annotations_def)
qed

lemma write_to_disk_other:
  "path \<notin> (\<lambda>q. file_path output q ext) ` fst ` set d \<Longrightarrow>
   write_to_disk output d ext fs path = fs path"
proof (induction d arbitrary: fs)
  case Nil
  then show ?case by simp
next
  case (Cons a d)
  obtain q i where a: "a = (q, i)" by (cases a)
  from Cons.prems a have ne: "path \<noteq> file_path output q ext"
    and rest: "path \<notin> (\<lambda>q. file_path output q ext) ` fst ` set d" by auto
  have "write_to_disk output (a # d) ext fs path =
        write_to_disk output d ext (fs(file_path output q ext \<mapsto> i)) path"
    by (simp add: a)
  also have "\<dots> = (fs(file_path output q ext \<mapsto> i)) path"
    by (rule Cons.IH[OF rest])
  also have "\<dots> = fs path" using ne by simp
  finally show ?case .
qed

lemma write_to_disk_lookup:
  assumes "distinct (map fst d)" "map_of d p = Some item"
    and "\<forall>q\<in>fst ` set d. q \<noteq> p \<longrightarrow> file_path output q ext \<noteq> file_path output p ext"
  shows "write_to_disk output d ext fs (file_path output p ext) = Some item"
  using assms
proof (induction d arbitrary: fs)
  case Nil
  then show ?case by simp
next
  case (Cons a d)
  obtain q i where a: "a = (q, i)" by (cases a)
  have coll: "\<forall>q\<in>fst ` set d. q \<noteq> p \<longrightarrow> file_path output q ext \<noteq> file_path output p ext"
    using Cons.prems(3) by (simp only: list.set image_insert ball_simps) blast
  show ?case
  proof (cases "q = p")
    case True
    from Cons.prems(1,2) a True have i: "i = item" and notin: "p \<notin> fst ` set d" by simp_all
    have "file_path output p ext \<notin> (\<lambda>q. file_path output q ext) ` fst ` set d"
    proof
      assume "file_path output p ext \<in> (\<lambda>q. file_path output q ext) ` fst ` set d"
      then obtain q' where eq: "file_path output p ext = file_path output q' ext"
        and q': "q' \<in> fst ` set d" by (rule imageE)
      from q' notin have "q' \<noteq> p" by (rule_tac notI) simp
      from bspec[OF coll q'] this have "file_path output q' ext \<noteq> file_path output p ext" by (rule mp)
      with eq show False by simp
    qed
    from write_to_disk_other[where fs = "fs(file_path output p ext \<mapsto> item)", OF this]
    have "write_to_disk output d ext (fs(file_path output p ext \<mapsto> item)) (file_path output p ext)
        = (fs(file_path output p ext \<mapsto> item)) (file_path output p ext)" .
    then show ?thesis using a True i by simp
  next
    case False
    from Cons.prems(1,2) a False have "distinct (map fst d)" "map_of d p = Some item" by simp_all
    from Cons.IH[OF this coll] show ?thesis using a by simp
  qed
qed

section \<open>Merging and writing: claims\<close>

text \<open>
  C4: for a document identifier present in both mappings, the merged body is the entity
  block, one newline, then the relation block; when no other document shares its file name,
  that body is the content of its \<^verbatim>\<open>.ann\<close> file.
\<close>

theorem merge_entity_block_first:
  assumes "distinct (map fst converted_entities)"
    and "map_of converted_entities pmid = Some e"
    and "map_of converted_relations pmid = Some r"
  shows "\<exists>merged. merge_annotations converted_entities converted_relations = Inr merged \<and>
           map_of merged pmid = Some (e @ [NL] @ r) \<and>
           ((\<forall>q\<in>fst ` set converted_entities. q \<noteq> pmid \<longrightarrow>
                file_path output q ''ann'' \<noteq> file_path output pmid ''ann'') \<longrightarrow>
            write_to_disk output merged ''ann'' fs (file_path output pmid ''ann'') =
              Some (e @ [NL] @ r))"
proof -
  from merge_annotations_spec[OF assms(1), of converted_relations] obtain m where
    m: "merge_annotations converted_entities converted_relations = Inr m"
    and keys: "map fst m = map fst converted_entities"
    and look: "\<forall>p. map_of m p =
        (case map_of converted_relations p of
           None \<Rightarrow> map_of converted_entities p
         | Some r \<Rightarrow> map_option (\<lambda>e. e @ [NL] @ r) (map_of converted_entities p))"
    by blast
  have body: "map_of m pmid = Some (e @ [NL] @ r)"
    using look assms(2,3) by simp
  have dist: "distinct (map fst m)" using keys assms(1) by simp
  have same: "fst ` set m = fst ` set converted_entities"
    using keys by (metis set_map)
  have "write_to_disk output m ''ann'' fs (file_path output pmid ''ann'') = Some (e @ [NL] @ r)"
    if "\<forall>q\<in>fst ` set converted_entities. q \<noteq> pmid \<longrightarrow>
          file_path output q ''ann'' \<noteq> file_path output pmid ''ann''"
    using write_to_disk_lookup[OF dist body] that same by simp
  with m body show ?thesis by blast
qed

theorem merge_entity_block_first_witness:
  "\<exists>merged. merge_annotations [(''1'', ''T1''), (''2'', ''T2'')] [(''1'', ''R1'')] = Inr merged \<and>
     map_of merged ''1'' = Some (''T1'' @ [NL] @ ''R1'') \<and>
     write_to_disk ''out'' merged ''ann'' Map.empty (file_path ''out'' ''1'' ''ann'') =
       Some (''T1'' @ [NL] @ ''R1'')"
  using merge_entity_block_first[of "[(''1'', ''T1''), (''2'', ''T2'')]" "''1''" "''T1''"
      "[(''1'', ''R1'')]" "''R1''" "''out''" Map.empty]
  by (simp add: file_path_def path_join_def)

text \<open>
  C2 (as amended): a document identifier present only in the entity mapping keeps its entity
  block unmodified in the merged mapping and, when no other document shares its file name,
  in its \<^verbatim>\<open>.ann\<close> file. A document identifier absent from the entity mapping, hence one
  present only in the relation mapping, is absent from the merged mapping, and the write
  leaves the file system at its \<^verbatim>\<open>.ann\<close> path as it was.
\<close>

theorem merge_single_kind:
  assumes "distinct (map fst converted_entities)"
  shows "\<exists>merged. merge_annotations converted_entities converted_relations = Inr merged \<and>
           (map_of converted_entities pmid = Some e \<and>
            map_of converted_relations pmid = None \<longrightarrow>
              map_of merged pmid = Some e \<and>
              ((\<forall>q\<in>fst ` set converted_entities. q \<noteq> pmid \<longrightarrow>
                   file_path output q ''ann'' \<noteq> file_path output pmid ''ann'') \<longrightarrow>
               write_to_disk output merged ''ann'' fs (file_path output pmid ''ann'') = Some e)) \<and>
           (map_of converted_entities pmid' = None \<longrightarrow>
              map_of merged pmid' = None \<and>
              ((\<forall>q\<in>fst ` set converted_entities.
                   file_path output q ''ann'' \<noteq> file_path output pmid' ''ann'') \<longrightarrow>
               write_to_disk output merged ''ann'' fs (file_path output pmid' ''ann'') =
                 fs (file_path output pmid' ''ann'')))"
proof -
  from merge_annotations_spec[OF assms, of converted_relations] obtain m where
    m: "merge_annotations converted_entities converted_relations = Inr m"
    and keys: "map fst m = map fst converted_entities"
    and look: "\<forall>p. map_of m p =
        (case map_of converted_relations p of
           None \<Rightarrow> map_of converted_entities p
         | Some r \<Rightarrow> map_option (\<lambda>e. e @ [NL] @ r) (map_of converted_entities p))"
    by blast
  have dist: "distinct (map fst m)" using keys assms by simp
  have same: "fst ` set m = fst ` set converted_entities"
    using keys by (metis set_map)
  have ent_only: "map_of m pmid = Some e \<and>
      ((\<forall>q\<in>fst ` set converted_entities. q \<noteq> pmid \<longrightarrow>
           file_path output q ''ann'' \<noteq> file_path output pmid ''ann'') \<longrightarrow>
       write_to_disk output m ''ann'' fs (file_path output pmid ''ann'') = Some e)"
    if h: "map_of converted_entities pmid = Some e \<and> map_of converted_relations pmid = None"
    for pmid e
  proof -
    have body: "map_of m pmid = Some e" using look h by simp
    show ?thesis using body write_to_disk_lookup[OF dist body] same by simp
  qed
  have rel_only: "map_of m pmid = None \<and>
      ((\<forall>q\<in>fst ` set converted_entities.
           file_path output q ''ann'' \<noteq> file_path output pmid ''ann'') \<longrightarrow>
       write_to_disk output m ''ann'' fs (file_path output pmid ''ann'') =
         fs (file_path output pmid ''ann''))"
    if h: "map_of converted_entities pmid = None" for pmid
  proof -
    have body: "map_of m pmid = None" using look h by (simp split: option.splits)
    have "write_to_disk output m ''ann'' fs (file_path output pmid ''ann'') =
         fs (file_path output pmid ''ann'')"
      if "\<forall>q\<in>fst ` set converted_entities.
           file_path output q ''ann'' \<noteq> file_path output pmid ''ann''"
    proof -
      have "file_path output pmid ''ann'' \<notin> (\<lambda>q. file_path output q ''ann'') ` fst ` set m"
      proof
        assume "file_path output pmid ''ann'' \<in> (\<lambda>q. file_path output q ''ann'') ` fst ` set m"
        then obtain q where eq: "file_path output pmid ''ann'' = file_path output q ''ann''"
          and q: "q \<in> fst ` set m" by (rule imageE)
        from q same have "q \<in> fst ` set converted_entities" by simp
        from bspec[OF that this] eq show False by simp
      qed
      from write_to_disk_other[where fs = fs, OF this] show ?thesis .
    qed
    with body show ?thesis by simp
  qed
  show ?thesis
  proof (rule exI[of _ m], intro conjI)
    show "merge_annotations converted_entities converted_relations = Inr m" by (rule m)
  next
    show "map_of converted_entities pmid = Some e \<and> map_of converted_relations pmid = None \<longrightarrow>
      map_of m pmid = Some e \<and>
      ((\<forall>q\<in>fst ` set converted_entities. q \<noteq> pmid \<longrightarrow>
           file_path output q ''ann'' \<noteq> file_path output pmid ''ann'') \<longrightarrow>
       write_to_disk output m ''ann'' fs (file_path output pmid ''ann'') = Some e)"
      by (rule impI) (rule ent_only)
  next
    show "map_of converted_entities pmid' = None \<longrightarrow>
      map_of m pmid' = None \<and>
      ((\<forall>q\<in>fst ` set converted_entities.
           file_path output q ''ann'' \<noteq> file_path output pmid' ''ann'') \<longrightarrow>
       write_to_disk output m ''ann'' fs (file_path output pmid' ''ann'') =
         fs (file_path output pmid' ''ann''))"
      by (rule impI) (rule rel_only)
  qed
qed

theorem merge_single_kind_witness:
  "\<exists>merged. merge_annotations [(''1'', ''T1''), (''2'', ''T2'')] [(''2'', ''R1''), (''3'', ''R1'')] = Inr merged \<and>
     map_of merged ''1'' = Some ''T1'' \<and>
     write_to_disk ''out'' merged ''ann'' Map.empty (file_path ''out'' ''1'' ''ann'') = Some ''T1'' \<and>
     map_of merged ''3'' = None \<and>
     write_to_disk ''out'' merged ''ann'' Map.empty (file_path ''out'' ''3'' ''ann'') = None"
  using merge_single_kind[of "[(''1'', ''T1''), (''2'', ''T2'')]"
      "[(''2'', ''R1''), (''3'', ''R1'')]" "''1''" "''T1''" "''out''" Map.empty "''3''"]
  by (simp add: file_path_def path_join_def)

text \<open>
  C2 as stated fails: with entities for document 1 only and relations for document 2 only,
  no \<^verbatim>\<open>.ann\<close> file is written for document 2.
\<close>

theorem relation_only_document_dropped:
  "map_of [(''2'', ''R1'')] ''2'' = Some ''R1'' \<and>
   map_of [(''1'', ''T1'')] ''2'' = None \<and>
   (\<exists>fs. merge_and_write ''out'' [(''1'', ''T1'')] [(''2'', ''R1'')] Map.empty = Inr fs \<and>
      fs ''out/1.ann'' = Some ''T1'' \<and>
      fs (file_path ''out'' ''2'' ''ann'') = None \<and>
      file_path ''out'' ''2'' ''ann'' = ''out/2.ann'')"
  by (simp add: merge_and_write_def merge_annotations_def file_path_def path_join_def)

section \<open>Splitting and joining\<close>

lemma split_on_not_Nil [simp]: "split_on c s \<noteq> []"
  by (induction s) (auto split: list.splits)

lemma split_on_other:
  "x \<noteq> c \<Longrightarrow> split_on c (x # cs) = (x # hd (split_on c cs)) # tl (split_on c cs)"
  by (cases "split_on c cs") simp_all

lemma split_on_none: "c \<notin> set a \<Longrightarrow> split_on c a = [a]"
  by (induction a) auto

lemma split_on_append: "c \<notin> set a \<Longrightarrow> split_on c (a @ c # rest) = a # split_on c rest"
  by (induction a) auto

lemma join_Cons: "ws \<noteq> [] \<Longrightarrow> join sep (w # ws) = w @ sep @ join sep ws"
  by (cases ws) simp_all

lemma join_Cons_Cons: "join sep ((x # h) # t) = x # join sep (h # t)"
  by (cases t) simp_all

lemma split_join:
  "fs \<noteq> [] \<Longrightarrow> \<forall>f\<in>set fs. c \<notin> set f \<Longrightarrow> split_on c (join [c] fs) = fs"
proof (induction fs)
  case Nil
  then show ?case by simp
next
  case (Cons f fs)
  show ?case
  proof (cases fs)
    case Nil
    with Cons.prems show ?thesis by (simp add: split_on_none)
  next
    case (Cons g gs)
    with Cons.prems Cons.IH have "split_on c (join [c] fs) = fs" by simp
    moreover have "join [c] (f # fs) = f @ c # join [c] fs"
      using Cons by simp
    moreover have "c \<notin> set f" using Cons.prems by simp
    ultimately show ?thesis by (simp add: split_on_append)
  qed
qed

lemma join_split_on:
  "join [n] (split_on c s) = map (\<lambda>x. if x = c then n else x) s"
proof (induction s)
  case Nil
  then show ?case by simp
next
  case (Cons x s)
  show ?case
  proof (cases "x = c")
    case True
    then show ?thesis using Cons.IH by (simp add: join_Cons)
  next
    case False
    have s1: "split_on c (x # s) = (x # hd (split_on c s)) # tl (split_on c s)"
      using False by (rule split_on_other)
    have s2: "hd (split_on c s) # tl (split_on c s) = split_on c s" by simp
    show ?thesis unfolding s1 join_Cons_Cons s2 Cons.IH using False by simp
  qed
qed

lemma length_split_on:
  "length (split_on c s) = Suc (length (filter (\<lambda>x. x = c) s))"
  by (induction s) (auto split: list.splits)

lemma set_join: "x \<in> set (join sep fs) \<Longrightarrow> x \<in> set sep \<or> (\<exists>f\<in>set fs. x \<in> set f)"
  by (induction sep fs rule: join.induct) auto

lemma join_not_Nil: "fs \<noteq> [] \<Longrightarrow> hd fs \<noteq> [] \<Longrightarrow> join sep fs \<noteq> []"
  by (induction sep fs rule: join.induct) auto

lemma hd_join: "fs \<noteq> [] \<Longrightarrow> hd fs \<noteq> [] \<Longrightarrow> hd (join sep fs) = hd (hd fs)"
  by (induction sep fs rule: join.induct) auto

lemma join_not_Nil_last: "fs \<noteq> [] \<Longrightarrow> last fs \<noteq> [] \<Longrightarrow> join sep fs \<noteq> []"
  by (induction sep fs rule: join.induct) auto

lemma last_join: "fs \<noteq> [] \<Longrightarrow> last fs \<noteq> [] \<Longrightarrow> last (join sep fs) = last (last fs)"
proof (induction sep fs rule: join.induct)
  case (3 sep x y ys)
  then have "join sep (y # ys) \<noteq> []" by (intro join_not_Nil_last) simp_all
  with 3 show ?case by simp
qed simp_all

section \<open>Lines of a file\<close>

lemma file_lines_line:
  "NL \<notin> set l \<Longrightarrow> file_lines (l @ NL # rest) = (l @ [NL]) # file_lines rest"
  by (induction l) auto

lemma file_lines_nonempty: "l \<in> set (file_lines f) \<Longrightarrow> l \<noteq> []"
  by (induction f arbitrary: l) (auto split: if_splits list.splits)

section \<open>Stripping\<close>

lemma rstrip_snoc_space: "is_space c \<Longrightarrow> rstrip (s @ [c]) = rstrip s"
  by (simp add: rstrip_def)

lemma rstrip_id: "s \<noteq> [] \<Longrightarrow> \<not> is_space (last s) \<Longrightarrow> rstrip s = s"
  by (simp add: rstrip_def dropWhile_eq_self_iff[THEN iffD2] hd_rev)

lemma lstrip_id: "s \<noteq> [] \<Longrightarrow> \<not> is_space (hd s) \<Longrightarrow> lstrip s = s"
  by (simp add: lstrip_def dropWhile_eq_self_iff[THEN iffD2])

lemma is_space_NL [simp]: "is_space NL"
  by (simp add: is_space_def)

lemma is_space_TAB [simp]: "is_space TAB"
  by (simp add: is_space_def)

lemma strip_line:
  "s \<noteq> [] \<Longrightarrow> \<not> is_space (hd s) \<Longrightarrow> \<not> is_space (last s) \<Longrightarrow> strip (s @ [NL]) = s"
  by (simp add: strip_def rstrip_snoc_space rstrip_id lstrip_id)

section \<open>Well-formed rows\<close>

lemma wf_row_no_NL: "wf_row r \<Longrightarrow> NL \<notin> set (join [TAB] r)"
  by (auto simp: wf_row_def dest!: set_join)

lemma parse_row_line: "wf_row r \<Longrightarrow> split_on TAB (strip (row_line r)) = r"
proof -
  assume wf: "wf_row r"
  then have "join [TAB] r \<noteq> []" "\<not> is_space (hd (join [TAB] r))"
      "\<not> is_space (last (join [TAB] r))"
    by (simp_all add: wf_row_def join_not_Nil hd_join last_join)
  then have "strip (row_line r) = join [TAB] r"
    by (simp add: row_line_def strip_line)
  moreover have "split_on TAB (join [TAB] r) = r"
    using wf by (intro split_join) (simp_all add: wf_row_def)
  ultimately show ?thesis by simp
qed

lemma file_lines_row:
  "wf_row r \<Longrightarrow> file_lines (row_line r @ rest) = row_line r # file_lines rest"
  using file_lines_line[OF wf_row_no_NL, of r rest] by (simp add: row_line_def)

lemma file_lines_rows:
  "\<forall>r\<in>set rows. wf_row r \<Longrightarrow> file_lines (concat (map row_line rows)) = map row_line rows"
  by (induction rows) (simp_all add: file_lines_row)

lemma line_fields_row_line: "wf_row r \<Longrightarrow> line_fields (row_line r) = r"
  by (simp add: line_fields_def parse_row_line)

lemma row_line_not_Nil: "row_line r \<noteq> []"
  by (simp add: row_line_def)

section \<open>A trailing empty field\<close>

lemma join_snoc: "fs \<noteq> [] \<Longrightarrow> join sep (fs @ [x]) = join sep fs @ sep @ x"
  by (induction sep fs rule: join.induct) simp_all

lemma count_dropWhile_le:
  "length (filter P (dropWhile Q xs)) \<le> length (filter P xs)"
  by (induction xs) simp_all

lemma count_strip_le: "length (filter P (strip s)) \<le> length (filter P s)"
proof -
  have "length (filter P (strip s)) \<le> length (filter P (rstrip s))"
    by (simp add: strip_def lstrip_def count_dropWhile_le)
  also have "length (filter P (rstrip s)) = length (filter P (dropWhile is_space (rev s)))"
    by (simp add: rstrip_def flip: rev_filter)
  also have "\<dots> \<le> length (filter P (rev s))" by (rule count_dropWhile_le)
  also have "\<dots> = length (filter P s)" by (simp flip: rev_filter)
  finally show ?thesis .
qed

lemma strip_snoc_space: "is_space c \<Longrightarrow> strip (s @ [c]) = strip s"
  by (simp add: strip_def rstrip_snoc_space)

lemma trailing_empty_field_short:
  assumes n: "2 \<le> length fields"
    and notab: "\<forall>f\<in>set fields. TAB \<notin> set f"
    and empty: "last fields = []"
    and line: "line = row_line fields \<or> line = join [TAB] fields"
  shows "length (line_fields line) < length fields"
proof -
  from n have ne: "fields \<noteq> []" by auto
  define init where "init = butlast fields"
  have fields: "fields = init @ [[]]"
    using ne empty unfolding init_def by (metis append_butlast_last_id)
  have init_ne: "init \<noteq> []" using n fields by (cases init) auto
  have j: "join [TAB] fields = join [TAB] init @ [TAB]"
    unfolding fields using init_ne by (simp add: join_snoc)
  have s: "strip line = strip (join [TAB] init)"
  proof -
    from line show ?thesis
    proof
      assume "line = row_line fields"
      then have "line = (join [TAB] init @ [TAB]) @ [NL]" by (simp add: row_line_def j)
      then show ?thesis by (simp only: strip_snoc_space is_space_NL is_space_TAB)
    next
      assume "line = join [TAB] fields"
      then show ?thesis by (simp only: j strip_snoc_space is_space_TAB)
    qed
  qed
  have "\<forall>f\<in>set init. TAB \<notin> set f" using notab fields by (metis butlast_snoc in_set_butlastD)
  then have "split_on TAB (join [TAB] init) = init" using init_ne by (intro split_join) simp_all
  then have "length init = Suc (length (filter (\<lambda>x. x = TAB) (join [TAB] init)))"
    using length_split_on[of TAB "join [TAB] init"] by simp
  moreover have "length (filter (\<lambda>x. x = TAB) (strip (join [TAB] init))) \<le>
      length (filter (\<lambda>x. x = TAB) (join [TAB] init))" by (rule count_strip_le)
  ultimately have "length (split_on TAB (strip line)) \<le> length init"
    unfolding s by (simp add: length_split_on)
  moreover have "length fields = Suc (length init)" using fields by (metis length_append_singleton)
  ultimately show ?thesis by (simp add: line_fields_def)
qed

section \<open>Entity parser: properties\<close>

lemma entities_step_ok:
  assumes "l \<noteq> []" "length (line_fields l) = 6"
  shows "\<exists>d'. entities_step d l = Inr d' \<and>
           map_of d' = (map_of d)(line_fields l ! 0 \<mapsto>
              lookup_list d (line_fields l ! 0) @ [standoff_entity_line (line_fields l)])"
  using assms
  by (cases "map_of d (line_fields l ! 0)")
     (simp_all add: entities_step_def line_fields_def Let_def update_conv' lookup_list_def
        standoff_entity_line_def entity_ann_def)

lemma entities_step_bad:
  "l \<noteq> [] \<Longrightarrow> length (line_fields l) \<noteq> 6 \<Longrightarrow> entities_step d l = Inl ValueError"
  by (simp add: entities_step_def line_fields_def)

lemma entities_step_error: "entities_step d l = Inl e \<Longrightarrow> e = ValueError"
  by (auto simp: entities_step_def Let_def update_conv' split: if_splits option.splits)

lemma entities_loop_bad:
  "\<exists>l\<in>set ls. l \<noteq> [] \<and> length (line_fields l) \<noteq> 6 \<Longrightarrow>
   entities_loop d ls = Inl ValueError"
proof (induction ls arbitrary: d)
  case Nil
  then show ?case by simp
next
  case (Cons l ls)
  show ?case
  proof (cases "entities_step d l")
    case (Inl e)
    then show ?thesis using entities_step_error[OF Inl] by simp
  next
    case (Inr d')
    have "\<not> (l \<noteq> [] \<and> length (line_fields l) \<noteq> 6)"
      using Inr entities_step_bad[of l d] by auto
    with Cons.prems have "\<exists>l\<in>set ls. l \<noteq> [] \<and> length (line_fields l) \<noteq> 6" by auto
    from Cons.IH[OF this] show ?thesis using Inr by simp
  qed
qed

lemma lookup_list_upd:
  "map_of d' = (map_of d)(k \<mapsto> v) \<Longrightarrow>
   lookup_list d' p = (if p = k then v else lookup_list d p)"
  by (simp add: lookup_list_def)

lemma entities_loop_spec:
  assumes "\<forall>l\<in>set ls. l \<noteq> [] \<and> length (line_fields l) = 6"
  shows "\<exists>d'. entities_loop d ls = Inr d' \<and>
           (\<forall>p. map_of d' p =
              (if p \<in> (\<lambda>r. r ! 0) ` set (map line_fields ls)
               then Some (lookup_list d p @
                          map standoff_entity_line (rows_of p (map line_fields ls)))
               else map_of d p))"
  using assms
proof (induction ls arbitrary: d)
  case Nil
  then show ?case by simp
next
  case (Cons l ls)
  let ?k = "line_fields l ! 0"
  let ?e = "standoff_entity_line (line_fields l)"
  from Cons.prems have l: "l \<noteq> []" "length (line_fields l) = 6"
    and rest: "\<forall>l\<in>set ls. l \<noteq> [] \<and> length (line_fields l) = 6" by simp_all
  from entities_step_ok[OF l, of d] obtain d1 where
    step: "entities_step d l = Inr d1" and
    d1: "map_of d1 = (map_of d)(?k \<mapsto> lookup_list d ?k @ [?e])" by blast
  from Cons.IH[OF rest, of d1] obtain d' where
    loop: "entities_loop d1 ls = Inr d'" and
    d': "\<forall>p. map_of d' p =
              (if p \<in> (\<lambda>r. r ! 0) ` set (map line_fields ls)
               then Some (lookup_list d1 p @
                          map standoff_entity_line (rows_of p (map line_fields ls)))
               else map_of d1 p)" by blast
  have look: "lookup_list d1 p = (if p = ?k then lookup_list d ?k @ [?e] else lookup_list d p)"
    for p using lookup_list_upd[OF d1] by simp
  have "map_of d' p =
          (if p \<in> (\<lambda>r. r ! 0) ` set (map line_fields (l # ls))
           then Some (lookup_list d p @
                      map standoff_entity_line (rows_of p (map line_fields (l # ls))))
           else map_of d p)" for p
  proof (cases "p = ?k")
    case True
    show ?thesis
    proof (cases "p \<in> (\<lambda>r. r ! 0) ` set (map line_fields ls)")
      case in_rest: True
      then show ?thesis using d' look True by (simp add: rows_of_def)
    next
      case False
      then have "rows_of p (map line_fields ls) = []"
        by (auto simp: rows_of_def filter_empty_conv)
      then show ?thesis using d' d1 False True by (simp add: rows_of_def)
    qed
  next
    case False
    then show ?thesis using d' d1 look by (auto simp: rows_of_def)
  qed
  then show ?case using step loop by simp
qed

lemma map_of_join_values: "map_of (join_values d) p = map_option (join [NL]) (map_of d p)"
  by (induction d) (auto simp: join_values_def)

section \<open>Entity parser: claims\<close>

text \<open>
  C5 (as amended): for a file of six-field rows, each on its own newline-terminated line,
  whose fields hold no tab or newline and which neither begin nor end with whitespace,
  the entity parser's output for a document is the newline-join, in input order, of that
  document's rows, each formatted as
  \<^verbatim>\<open>{local_entity_id}\t{type_label} {start_offset} {end_offset}\t{surface_text}\<close> from its own
  fields; a document without rows has no entry. Rows of other documents may be interleaved.
\<close>

theorem entity_parser_preserves_rows:
  assumes "\<forall>r\<in>set rows. length r = 6 \<and> wf_row r"
  shows "\<exists>d. convert_entities_to_standoff (concat (map row_line rows)) = Inr d \<and>
           map_of d pmid =
             (if pmid \<in> (\<lambda>r. r ! 0) ` set rows
              then Some (join [NL] (map standoff_entity_line (rows_of pmid rows)))
              else None)"
proof -
  let ?ls = "map row_line rows"
  have lines: "file_lines (concat (map row_line rows)) = ?ls"
    using assms by (intro file_lines_rows) simp
  have fields: "map line_fields ?ls = rows"
    using assms by (induction rows) (simp_all add: line_fields_row_line)
  have ok: "\<forall>l\<in>set ?ls. l \<noteq> [] \<and> length (line_fields l) = 6"
    using assms by (auto simp: line_fields_row_line row_line_not_Nil)
  from entities_loop_spec[OF ok, of "[]"] obtain d' where
    loop: "entities_loop [] ?ls = Inr d'" and
    d': "\<forall>p. map_of d' p =
              (if p \<in> (\<lambda>r. r ! 0) ` set (map line_fields ?ls)
               then Some (lookup_list [] p @
                          map standoff_entity_line (rows_of p (map line_fields ?ls)))
               else map_of [] p)" by blast
  have "map_of d' pmid =
          (if pmid \<in> (\<lambda>r. r ! 0) ` set rows
           then Some (map standoff_entity_line (rows_of pmid rows)) else None)"
    using d' unfolding fields by (simp add: lookup_list_def)
  then have "map_of (join_values d') pmid =
          (if pmid \<in> (\<lambda>r. r ! 0) ` set rows
           then Some (join [NL] (map standoff_entity_line (rows_of pmid rows))) else None)"
    by (simp add: map_of_join_values)
  moreover have "convert_entities_to_standoff (concat (map row_line rows)) = Inr (join_values d')"
    using loop lines by (simp add: convert_entities_to_standoff_def)
  ultimately show ?thesis by blast
qed

theorem entity_parser_preserves_rows_witness:
  "\<exists>d. convert_entities_to_standoff
          (row_line [''PMID1'', ''T1'', ''CHEMICAL'', ''0'', ''5'', ''aspirin''] @
           row_line [''PMID2'', ''T1'', ''GENE'', ''3'', ''7'', ''EGFR''] @
           row_line [''PMID1'', ''T2'', ''GENE'', ''10'', ''15'', ''COX-2'']) = Inr d \<and>
       map_of d ''PMID1'' =
         Some (''T1'' @ [TAB] @ ''CHEMICAL 0 5'' @ [TAB] @ ''aspirin'' @ [NL] @
               ''T2'' @ [TAB] @ ''GENE 10 15'' @ [TAB] @ ''COX-2'')"
proof -
  have wf: "\<forall>r\<in>set [[''PMID1'', ''T1'', ''CHEMICAL'', ''0'', ''5'', ''aspirin''],
                      [''PMID2'', ''T1'', ''GENE'', ''3'', ''7'', ''EGFR''],
                      [''PMID1'', ''T2'', ''GENE'', ''10'', ''15'', ''COX-2'']].
              length r = 6 \<and> wf_row r"
    by (simp add: wf_row_def is_space_def)
  from entity_parser_preserves_rows[OF wf, of "''PMID1''"]
  show ?thesis by (simp add: rows_of_def standoff_entity_line_def)
qed

text \<open>
  C5 as stated fails: every line is stripped before it is split, so a six-field row whose
  surface text ends with a space loses that space, and a row whose document identifier
  begins with a space is filed under the identifier without it.
\<close>

theorem edge_whitespace_not_preserved:
  "convert_entities_to_standoff
     (row_line [''PMID1'', ''T1'', ''CHEMICAL'', ''0'', ''8'', ''aspirin '']) =
     Inr [(''PMID1'', ''T1'' @ [TAB] @ ''CHEMICAL 0 8'' @ [TAB] @ ''aspirin'')] \<and>
   standoff_entity_line [''PMID1'', ''T1'', ''CHEMICAL'', ''0'', ''8'', ''aspirin ''] =
     ''T1'' @ [TAB] @ ''CHEMICAL 0 8'' @ [TAB] @ ''aspirin '' \<and>
   ''T1'' @ [TAB] @ ''CHEMICAL 0 8'' @ [TAB] @ ''aspirin'' \<noteq>
     ''T1'' @ [TAB] @ ''CHEMICAL 0 8'' @ [TAB] @ ''aspirin '' \<and>
   convert_entities_to_standoff
     (row_line ['' PMID1'', ''T1'', ''CHEMICAL'', ''0'', ''7'', ''aspirin'']) =
     Inr [(''PMID1'', ''T1'' @ [TAB] @ ''CHEMICAL 0 7'' @ [TAB] @ ''aspirin'')] \<and>
   '' PMID1'' \<noteq> ''PMID1''"
  by code_simp

text \<open>
  C8 (as amended): when some line of the entity file is not blank and, once stripped of
  surrounding whitespace, does not split into exactly six tab-separated fields, the entity
  parser raises \<^verbatim>\<open>ValueError\<close> and produces no mapping.
\<close>

theorem malformed_entity_line_rejected:
  assumes "line \<in> set (file_lines f)"
    and "strip line \<noteq> []"
    and "length (split_on TAB (strip line)) \<noteq> 6"
  shows "convert_entities_to_standoff f = Inl ValueError"
proof -
  from assms(1) have "line \<noteq> []" by (rule file_lines_nonempty)
  with assms(1,3) have "\<exists>l\<in>set (file_lines f). l \<noteq> [] \<and> length (line_fields l) \<noteq> 6"
    by (auto simp: line_fields_def)
  from entities_loop_bad[OF this, of "[]"] show ?thesis
    by (simp add: convert_entities_to_standoff_def)
qed

theorem malformed_entity_line_rejected_witness:
  "convert_entities_to_standoff
     (row_line [''PMID1'', ''T1'', ''CHEMICAL'', ''0'', ''5'', ''aspirin''] @
      row_line [''PMID1'', ''T2'', ''GENE'', ''10'', ''15'']) = Inl ValueError"
proof -
  let ?f = "row_line [''PMID1'', ''T1'', ''CHEMICAL'', ''0'', ''5'', ''aspirin''] @
      row_line [''PMID1'', ''T2'', ''GENE'', ''10'', ''15'']"
  let ?line = "row_line [''PMID1'', ''T2'', ''GENE'', ''10'', ''15'']"
  have 1: "?line \<in> set (file_lines ?f)" by code_simp
  have 2: "strip ?line \<noteq> []" by code_simp
  have 3: "length (split_on TAB (strip ?line)) \<noteq> 6" by code_simp
  from malformed_entity_line_rejected[OF 1 2 3] show ?thesis .
qed

text \<open>
  C8 as stated fails: a line of seven tab-separated fields whose last field is empty is
  accepted, because the trailing tab is stripped before the split.
\<close>

theorem seven_field_line_accepted:
  "length (split_on TAB (join [TAB] [''PMID1'', ''T1'', ''CHEMICAL'', ''0'', ''5'', ''aspirin'', ''''])) = 7 \<and>
   convert_entities_to_standoff
     (row_line [''PMID1'', ''T1'', ''CHEMICAL'', ''0'', ''5'', ''aspirin'', '''']) =
     Inr [(''PMID1'', ''T1'' @ [TAB] @ ''CHEMICAL 0 5'' @ [TAB] @ ''aspirin'')]"
  by code_simp

section \<open>Relation parser: properties\<close>


lemma relations_step_bad:
  "l \<noteq> [] \<Longrightarrow> length (line_fields l) \<noteq> 4 \<Longrightarrow> relations_step st l = Inl ValueError"
  by (cases st) (simp add: relations_step_def line_fields_def)

lemma relations_step_error: "relations_step st l = Inl e \<Longrightarrow> e = ValueError"
  by (cases st)
     (auto simp: relations_step_def Let_def update_conv' split: if_splits option.splits)

lemma relations_loop_bad:
  "\<exists>l\<in>set ls. l \<noteq> [] \<and> length (line_fields l) \<noteq> 4 \<Longrightarrow>
   relations_loop st ls = Inl ValueError"
proof (induction ls arbitrary: st)
  case Nil
  then show ?case by simp
next
  case (Cons l ls)
  show ?case
  proof (cases "relations_step st l")
    case (Inl e)
    then show ?thesis using relations_step_error[OF Inl] by simp
  next
    case (Inr st')
    have "\<not> (l \<noteq> [] \<and> length (line_fields l) \<noteq> 4)"
      using Inr relations_step_bad[of l st] by auto
    with Cons.prems have "\<exists>l\<in>set ls. l \<noteq> [] \<and> length (line_fields l) \<noteq> 4" by auto
    from Cons.IH[OF this] show ?thesis using Inr by simp
  qed
qed



section \<open>Rows that end in a tab\<close>

text \<open>
  C10: a line made of fields without tabs whose last field is empty, with or without its
  newline, makes the entity parser raise \<^verbatim>\<open>ValueError\<close> when it has six fields and the
  relation parser when it has four: stripping removes the trailing tab, and fewer fields
  than the row has are unpacked.
\<close>

theorem trailing_empty_field_rejected:
  assumes "line \<in> set (file_lines f)"
    and "line = row_line fields \<or> line = join [TAB] fields"
    and "\<forall>x\<in>set fields. TAB \<notin> set x"
    and "last fields = []"
  shows "(length fields = 6 \<longrightarrow> convert_entities_to_standoff f = Inl ValueError) \<and>
         (length fields = 4 \<longrightarrow> convert_relations_to_standoff f = Inl ValueError)"
proof (intro conjI impI)
  from assms(1) have ne: "line \<noteq> []" by (rule file_lines_nonempty)
  {
    assume six: "length fields = 6"
    then have "length (line_fields line) < 6"
      using trailing_empty_field_short[OF _ assms(3,4,2)] by simp
    with ne assms(1) have "\<exists>l\<in>set (file_lines f). l \<noteq> [] \<and> length (line_fields l) \<noteq> 6"
      by auto
    from entities_loop_bad[OF this, of "[]"]
    show "convert_entities_to_standoff f = Inl ValueError"
      by (simp add: convert_entities_to_standoff_def)
  }
  {
    assume four: "length fields = 4"
    then have "length (line_fields line) < 4"
      using trailing_empty_field_short[OF _ assms(3,4,2)] by simp
    with ne assms(1) have "\<exists>l\<in>set (file_lines f). l \<noteq> [] \<and> length (line_fields l) \<noteq> 4"
      by auto
    from relations_loop_bad[OF this, of "(1, [])"]
    show "convert_relations_to_standoff f = Inl ValueError"
      by (simp add: convert_relations_to_standoff_def)
  }
qed

theorem trailing_empty_field_rejected_witness:
  "convert_entities_to_standoff
     (row_line [''PMID1'', ''T1'', ''CHEMICAL'', ''0'', ''5'', '''']) = Inl ValueError \<and>
   convert_relations_to_standoff
     (row_line [''PMID1'', ''CPR:1'', ''Arg1:T1'', '''']) = Inl ValueError"
proof -
  let ?e = "[''PMID1'', ''T1'', ''CHEMICAL'', ''0'', ''5'', '''']"
  let ?r = "[''PMID1'', ''CPR:1'', ''Arg1:T1'', '''']"
  have e1: "row_line ?e \<in> set (file_lines (row_line ?e))" by code_simp
  have r1: "row_line ?r \<in> set (file_lines (row_line ?r))" by code_simp
  have e3: "\<forall>x\<in>set ?e. TAB \<notin> set x" by simp
  have r3: "\<forall>x\<in>set ?r. TAB \<notin> set x" by simp
  from trailing_empty_field_rejected[where fields = ?e, OF e1 _ e3]
  have "convert_entities_to_standoff (row_line ?e) = Inl ValueError" by simp
  moreover from trailing_empty_field_rejected[where fields = ?r, OF r1 _ r3]
  have "convert_relations_to_standoff (row_line ?r) = Inl ValueError" by simp
  ultimately show ?thesis by simp
qed

section \<open>Relation parser: claims\<close>




section \<open>Abstract parser: properties\<close>

lemma document_id_no_tab: "TAB \<notin> set row \<Longrightarrow> document_id row = row"
  by (induction row) (auto simp: document_id_def)

lemma split_on_first:
  "split_on TAB row =
     document_id row # (if TAB \<in> set row then split_on TAB (remainder row) else [])"
proof (cases "TAB \<in> set row")
  case False
  then show ?thesis by (simp add: split_on_none document_id_no_tab)
next
  case True
  let ?P = "\<lambda>c. c \<noteq> TAB"
  from True have "dropWhile ?P row \<noteq> []" by auto
  moreover from this have "hd (dropWhile ?P row) = TAB" using hd_dropWhile[of ?P row] by simp
  ultimately have d: "dropWhile ?P row = TAB # remainder row"
    by (cases "dropWhile ?P row") (simp_all add: remainder_def)
  have "row = document_id row @ TAB # remainder row"
    using takeWhile_dropWhile_id[of ?P row] d by (simp add: document_id_def)
  moreover have "TAB \<notin> set (document_id row)"
    by (auto simp: document_id_def dest: set_takeWhileD)
  ultimately have "split_on TAB row = document_id row # split_on TAB (remainder row)"
    using split_on_append[of TAB "document_id row" "remainder row"] by simp
  with True show ?thesis by simp
qed

lemma abstracts_loop_fold:
  "abstracts_loop d rows =
     Inr (fold (\<lambda>row. AList.update (document_id row) (abstract_body row)) rows d)"
proof (induction rows arbitrary: d)
  case Nil
  then show ?case by simp
next
  case (Cons row rows)
  have "join [NL] (if TAB \<in> set row then split_on TAB (remainder row) else []) =
        abstract_body row"
    by (simp add: abstract_body_def join_split_on tabs_to_newlines_def)
  then show ?case using Cons.IH by (simp add: split_on_first[of row])
qed

lemma fold_update_other:
  "\<forall>r\<in>set post. document_id r \<noteq> k \<Longrightarrow>
   map_of (fold (\<lambda>row. AList.update (document_id row) (abstract_body row)) post d) k =
     map_of d k"
  by (induction post arbitrary: d) (auto simp: update_conv')

lemma fold_update_last:
  assumes "\<forall>r\<in>set post. document_id r \<noteq> document_id row"
  shows "map_of (fold (\<lambda>row. AList.update (document_id row) (abstract_body row))
           (pre @ row # post) d) (document_id row) = Some (abstract_body row)"
  using fold_update_other[OF assms] by (simp add: update_conv')

lemma abstract_row_lookup:
  assumes "strip f = join [NL] (pre @ row # post)"
    and "\<forall>r\<in>set (pre @ row # post). NL \<notin> set r"
    and "\<forall>r\<in>set post. document_id r \<noteq> document_id row"
  shows "\<exists>d. convert_abstracts_to_standoff f = Inr d \<and>
           map_of d (document_id row) = Some (abstract_body row)"
proof -
  have "split_on NL (strip f) = pre @ row # post"
    unfolding assms(1) using assms(2) by (intro split_join) simp_all
  then have "convert_abstracts_to_standoff f =
      Inr (fold (\<lambda>row. AList.update (document_id row) (abstract_body row)) (pre @ row # post) [])"
    by (simp add: convert_abstracts_to_standoff_def abstracts_loop_fold)
  with fold_update_last[OF assms(3), of pre "[]"] show ?thesis by simp
qed

section \<open>Abstract parser: claims\<close>

text \<open>
  C6 (as amended): take as rows the newline-separated pieces of the file content once its
  surrounding whitespace is stripped, as the parser does. For a row that holds a tab (a document
  identifier followed by one or more text fields) and whose identifier no later row
  repeats, the parser's output at that identifier is the remainder of the row with every
  tab replaced by a newline.
\<close>

theorem abstract_body_is_remainder:
  assumes "strip f = join [NL] (pre @ row # post)"
    and "\<forall>r\<in>set (pre @ row # post). NL \<notin> set r"
    and "TAB \<in> set row"
    and "\<forall>r\<in>set post. document_id r \<noteq> document_id row"
  shows "\<exists>d. convert_abstracts_to_standoff f = Inr d \<and>
           map_of d (document_id row) = Some (tabs_to_newlines (remainder row))"
  using abstract_row_lookup[OF assms(1,2,4)] assms(3) by (simp add: abstract_body_def)

theorem abstract_body_is_remainder_witness:
  "\<exists>d. convert_abstracts_to_standoff
          (''1'' @ [TAB] @ ''Title'' @ [TAB] @ ''Body'' @ [NL] @
           ''2'' @ [TAB] @ ''Other'' @ [TAB] @ ''Text'' @ [NL]) = Inr d \<and>
       map_of d ''1'' = Some (''Title'' @ [NL] @ ''Body'')"
proof -
  let ?f = "''1'' @ [TAB] @ ''Title'' @ [TAB] @ ''Body'' @ [NL] @
           ''2'' @ [TAB] @ ''Other'' @ [TAB] @ ''Text'' @ [NL]"
  let ?row = "''1'' @ [TAB] @ ''Title'' @ [TAB] @ ''Body''"
  let ?post = "[''2'' @ [TAB] @ ''Other'' @ [TAB] @ ''Text'']"
  have 1: "strip ?f = join [NL] ([] @ ?row # ?post)" by code_simp
  have 2: "\<forall>r\<in>set ([] @ ?row # ?post). NL \<notin> set r" by simp
  have 3: "TAB \<in> set ?row" by simp
  have 4: "\<forall>r\<in>set ?post. document_id r \<noteq> document_id ?row" by (simp add: document_id_def)
  have 5: "document_id ?row = ''1''" by (simp add: document_id_def)
  have 6: "tabs_to_newlines (remainder ?row) = ''Title'' @ [NL] @ ''Body''"
    by (simp add: tabs_to_newlines_def remainder_def)
  from abstract_body_is_remainder[OF 1 2 3 4] show ?thesis unfolding 5 6 .
qed

text \<open>
  C6 as stated fails: the content is stripped as a whole before it is split into rows, so
  a last row that ends with an empty text field loses its final tab and the body lacks the
  final newline; and of two rows with one identifier the later one replaces the earlier.
\<close>

theorem stripped_content_changes_rows:
  "convert_abstracts_to_standoff (''1'' @ [TAB] @ ''Title'' @ [TAB] @ [NL]) =
     Inr [(''1'', ''Title'')] \<and>
   document_id (''1'' @ [TAB] @ ''Title'' @ [TAB]) = ''1'' \<and>
   tabs_to_newlines (remainder (''1'' @ [TAB] @ ''Title'' @ [TAB])) = ''Title'' @ [NL] \<and>
   ''Title'' \<noteq> ''Title'' @ [NL] \<and>
   convert_abstracts_to_standoff
     (''1'' @ [TAB] @ ''First'' @ [NL] @ ''1'' @ [TAB] @ ''Second'' @ [NL]) =
     Inr [(''1'', ''Second'')] \<and>
   document_id (''1'' @ [TAB] @ ''First'') = ''1'' \<and>
   tabs_to_newlines (remainder (''1'' @ [TAB] @ ''First'')) = ''First'' \<and>
   ''Second'' \<noteq> ''First''"
  by code_simp

text \<open>
  C7 (as amended): with the same rows, a line that holds no tab, and that is not the
  identifier of a later row, is mapped as a whole, as key, to the empty body.
\<close>

theorem abstract_line_without_tab:
  assumes "strip f = join [NL] (pre @ line # post)"
    and "\<forall>r\<in>set (pre @ line # post). NL \<notin> set r"
    and "TAB \<notin> set line"
    and "\<forall>r\<in>set post. document_id r \<noteq> line"
  shows "\<exists>d. convert_abstracts_to_standoff f = Inr d \<and> map_of d line = Some []"
proof -
  from assms(3) have id: "document_id line = line"
    by (rule document_id_no_tab)
  from assms(4) have "\<forall>r\<in>set post. document_id r \<noteq> document_id line" by (simp add: id)
  from abstract_row_lookup[OF assms(1,2) this] show ?thesis
    using assms(3) by (simp add: abstract_body_def id)
qed

theorem abstract_line_without_tab_witness:
  "\<exists>d. convert_abstracts_to_standoff
          (''1'' @ [TAB] @ ''Title'' @ [TAB] @ ''Body'' @ [NL] @ ''23456'' @ [NL]) = Inr d \<and>
       map_of d ''23456'' = Some []"
proof -
  let ?f = "''1'' @ [TAB] @ ''Title'' @ [TAB] @ ''Body'' @ [NL] @ ''23456'' @ [NL]"
  let ?pre = "[''1'' @ [TAB] @ ''Title'' @ [TAB] @ ''Body'']"
  have 1: "strip ?f = join [NL] (?pre @ ''23456'' # [])" by code_simp
  have 2: "\<forall>r\<in>set (?pre @ ''23456'' # []). NL \<notin> set r" by simp
  have 3: "TAB \<notin> set ''23456''" by simp
  have 4: "\<forall>r\<in>set []. document_id r \<noteq> ''23456''" by simp
  from abstract_line_without_tab[OF 1 2 3 4] show ?thesis .
qed

text \<open>
  C7 as stated fails: a line without a tab that is also the identifier of a later row ends
  up with that row's body; a last line that ends with a space is keyed without the space;
  and a blank last line gets no entry, the content being stripped as a whole.
\<close>

theorem line_without_tab_not_kept:
  "convert_abstracts_to_standoff
     (''X'' @ [NL] @ ''X'' @ [TAB] @ ''T'' @ [TAB] @ ''B'') =
     Inr [(''X'', ''T'' @ [NL] @ ''B'')] \<and>
   ''T'' @ [NL] @ ''B'' \<noteq> [] \<and>
   convert_abstracts_to_standoff (''23456 '' @ [NL]) = Inr [(''23456'', [])] \<and>
   map_of [(''23456'', [])] ''23456 '' = (None :: string option) \<and>
   convert_abstracts_to_standoff (''1'' @ [TAB] @ ''T'' @ [NL] @ [NL]) = Inr [(''1'', ''T'')] \<and>
   map_of [(''1'', ''T'')] [] = (None :: string option)"
  by code_simp

section \<open>Blank lines\<close>

text \<open>
  Every line that the file yields is non-empty, so the guard of both loops never skips
  one; a line of whitespace only is stripped to the empty string, which splits into one
  field, and both parsers raise.
\<close>

lemma blank_line_fields: "strip l = [] \<Longrightarrow> length (line_fields l) = 1"
  by (simp add: line_fields_def)

lemma blank_line_always_raises:
  assumes "l \<in> set (file_lines f)" "strip l = []"
  shows "convert_entities_to_standoff f = Inl ValueError"
    and "convert_relations_to_standoff f = Inl ValueError"
proof -
  from assms(1) have ne: "l \<noteq> []" by (rule file_lines_nonempty)
  have one: "length (line_fields l) = 1" using assms(2) by (rule blank_line_fields)
  from ne one assms(1) have "\<exists>l\<in>set (file_lines f). l \<noteq> [] \<and> length (line_fields l) \<noteq> 6"
    by (intro bexI[of _ l]) simp_all
  from entities_loop_bad[OF this, of "[]"]
  show "convert_entities_to_standoff f = Inl ValueError"
    by (simp add: convert_entities_to_standoff_def)
  from ne one assms(1) have "\<exists>l\<in>set (file_lines f). l \<noteq> [] \<and> length (line_fields l) \<noteq> 4"
    by (intro bexI[of _ l]) simp_all
  from relations_loop_bad[OF this, of "(1, [])"]
  show "convert_relations_to_standoff f = Inl ValueError"
    by (simp add: convert_relations_to_standoff_def)
qed

text \<open>
  C3: a blank line between two rows reaches the parsers as the one-character line holding
  the newline, which is not empty, so the guard lets it through and the unpacking of its
  single field raises \<^verbatim>\<open>ValueError\<close>; the same input without the blank line is converted.
\<close>

theorem blank_line_raises:
  "convert_entities_to_standoff
     (row_line [''PMID1'', ''T1'', ''CHEMICAL'', ''0'', ''5'', ''aspirin''] @ [NL] @
      row_line [''PMID1'', ''T2'', ''GENE'', ''10'', ''15'', ''COX-2'']) = Inl ValueError \<and>
   convert_entities_to_standoff
     (row_line [''PMID1'', ''T1'', ''CHEMICAL'', ''0'', ''5'', ''aspirin''] @
      row_line [''PMID1'', ''T2'', ''GENE'', ''10'', ''15'', ''COX-2'']) =
     Inr [(''PMID1'', ''T1'' @ [TAB] @ ''CHEMICAL 0 5'' @ [TAB] @ ''aspirin'' @ [NL] @
                      ''T2'' @ [TAB] @ ''GENE 10 15'' @ [TAB] @ ''COX-2'')] \<and>
   convert_relations_to_standoff
     (row_line [''PMID1'', ''CPR:1'', ''Arg1:T1'', ''Arg2:T2''] @ [NL]) = Inl ValueError \<and>
   convert_relations_to_standoff
     (row_line [''PMID1'', ''CPR:1'', ''Arg1:T1'', ''Arg2:T2'']) =
     Inr [(''PMID1'', ''R1'' @ [TAB] @ ''CPR:1 Arg1:T1 Arg2:T2'')]"
  by code_simp

section \<open>Directory initializer: properties\<close>

text \<open>
  C9: \<^verbatim>\<open>make_dir\<close> succeeds, leaving the world as it is, when \<^verbatim>\<open>os.makedirs\<close> reports that the
  path already exists; a second call after a successful one succeeds again (given that
  \<^verbatim>\<open>os.makedirs\<close> reports an existing path once it has created it); and every other error of
  \<^verbatim>\<open>os.makedirs\<close> is propagated.
\<close>

theorem make_dir_idempotent:
  assumes created: "\<And>w w'. os_makedirs directory w = Inr w' \<Longrightarrow> os_makedirs directory w' = Inl EEXIST"
  shows "(os_makedirs directory w = Inl EEXIST \<longrightarrow> make_dir os_makedirs directory w = Inr w) \<and>
         (make_dir os_makedirs directory w = Inr w1 \<longrightarrow> make_dir os_makedirs directory w1 = Inr w1) \<and>
         (os_makedirs directory w = Inl err \<and> err \<noteq> EEXIST \<longrightarrow>
            make_dir os_makedirs directory w = Inl err)"
proof (intro conjI impI)
  assume "os_makedirs directory w = Inl EEXIST"
  then show "make_dir os_makedirs directory w = Inr w" by (simp add: make_dir_def)
next
  assume first: "make_dir os_makedirs directory w = Inr w1"
  show "make_dir os_makedirs directory w1 = Inr w1"
  proof (cases "os_makedirs directory w")
    case (Inl e)
    with first have "e = EEXIST" "w1 = w" by (auto simp: make_dir_def split: if_splits)
    with Inl show ?thesis by (simp add: make_dir_def)
  next
    case (Inr w')
    with first have "w1 = w'" by (simp add: make_dir_def)
    with Inr created have "os_makedirs directory w1 = Inl EEXIST" by simp
    then show ?thesis by (simp add: make_dir_def)
  qed
next
  assume "os_makedirs directory w = Inl err \<and> err \<noteq> EEXIST"
  then show "make_dir os_makedirs directory w = Inl err" by (simp add: make_dir_def)
qed

theorem make_dir_idempotent_witness:
  "make_dir os_makedirs_model ''out'' [''out''] = Inr [''out''] \<and>
   make_dir os_makedirs_model ''out'' [] = Inr [''out''] \<and>
   make_dir os_makedirs_model [] [''out''] = Inl ENOENT"
proof -
  have created: "os_makedirs_model d w = Inr w' \<Longrightarrow> os_makedirs_model d w' = Inl EEXIST"
    for d w w'
    by (auto simp: os_makedirs_model_def split: if_splits)
  have first: "make_dir os_makedirs_model ''out'' [] = Inr [''out'']"
    by (simp add: make_dir_def os_makedirs_model_def)
  have exists: "os_makedirs_model ''out'' [''out''] = Inl EEXIST"
    by (simp add: os_makedirs_model_def)
  have other: "os_makedirs_model [] [''out''] = Inl ENOENT \<and> ENOENT \<noteq> EEXIST"
    by (simp add: os_makedirs_model_def ENOENT_def EEXIST_def)
  from make_dir_idempotent[of os_makedirs_model "''out''" "[''out'']" "[''out'']" ENOENT, OF created]
  have a: "make_dir os_makedirs_model ''out'' [''out''] = Inr [''out'']"
    using exists by simp
  from make_dir_idempotent[of os_makedirs_model "[]" "[''out'']" "[''out'']" ENOENT, OF created]
  have b: "make_dir os_makedirs_model [] [''out''] = Inl ENOENT"
    using other by simp
  from a first b show ?thesis by simp
qed

end
